theory Spec2Isabelle
  imports Main "HOL-Library.Sublist"
begin

section \<open>Tokens and the general tokenizer (vunit/parsing/tokenizer.py)\<close>

text \<open>
  Exceptions of the Python program are values: a function that can raise returns
  \<open>py_error + 'a\<close>, with \<open>Inl\<close> for the exception.
\<close>

datatype py_error =
  AttributeError | KeyError | IndexError | UnboundLocalError | IOError | ReError

text \<open>
  A location is \<open>(file_name, (start, end))\<close>; the file name is the optional
  \<open>file_name\<close> argument of \<open>tokenize\<close>. A token is the named tuple
  \<open>(kind, value, location)\<close>; the field \<open>value\<close> is called \<open>val\<close> here.
\<close>

type_synonym location = "string option \<times> int \<times> int"

record 'k token =
  kind :: 'k
  val :: string
  location :: "location option"

definition Token :: "'k \<Rightarrow> string \<Rightarrow> location option \<Rightarrow> 'k token" where
  "Token k v l = \<lparr>kind = k, val = v, location = l\<rparr>"

text \<open>
  \<open>new_token_kind\<close> makes a fresh object per registration: a kind is identified by
  its registration index and carries its display name.
\<close>

datatype token_kind = TokenKind nat string

text \<open>
  The regular expression engine is Python's \<open>re\<close>, not code of this repository. A
  rule's fragment is taken as its matcher: \<open>matcher r code p = Some n\<close> when the
  fragment matches at position \<open>p\<close> of \<open>code\<close> and consumes \<open>n\<close> characters.
  A rule holds what \<open>add\<close> stores in \<open>_regexs\<close> and \<open>_assoc\<close> under one key.
\<close>

record 'k rule =
  rule_kind :: 'k
  matcher :: "string \<Rightarrow> nat \<Rightarrow> nat option"
  func :: "('k token \<Rightarrow> 'k token option) option"

record 'k tokenizer =
  regexs :: "'k rule list"
  regex :: "'k rule list option"

definition init_tokenizer :: "token_kind tokenizer" where
  "init_tokenizer = \<lparr>regexs = [], regex = None\<rparr>"

definition add ::
  "string \<Rightarrow> (string \<Rightarrow> nat \<Rightarrow> nat option) \<Rightarrow> (token_kind token \<Rightarrow> token_kind token option) option
    \<Rightarrow> token_kind tokenizer \<Rightarrow> token_kind tokenizer \<times> token_kind" where
  "add name rx f t =
     (let k = TokenKind (length (regexs t)) name
      in (t\<lparr>regexs := regexs t @ [\<lparr>rule_kind = k, matcher = rx, func = f\<rparr>]\<rparr>, k))"

text \<open>
  \<open>finalize\<close> compiles the alternation of the fragments, each in a group named
  \<open>chr(ord('a') + index)\<close>; from the 27th rule on that is no group name and
  \<open>re.compile\<close> raises.
\<close>

definition finalize :: "'k tokenizer \<Rightarrow> py_error + 'k tokenizer" where
  "finalize t = (if 26 < length (regexs t) then Inl ReError else Inr (t\<lparr>regex := Some (regexs t)\<rparr>))"

text \<open>
  The alternation at one position: the first rule in registration order whose fragment
  matches there, with the text it matched.
\<close>

fun match_at :: "'k rule list \<Rightarrow> string \<Rightarrow> nat \<Rightarrow> ('k rule \<times> string) option" where
  "match_at [] code p = None"
| "match_at (r # rs) code p =
     (case matcher r code p of
        Some n \<Rightarrow> Some (r, take n (drop p code))
      | None \<Rightarrow> match_at rs code p)"

text \<open>
  \<open>self._regex.search(code, pos=start)\<close>: the leftmost position from \<open>p\<close> on, up to
  and including the end of the text, where the alternation matches. The result is
  \<open>(match.start(), rule of match.lastgroup, match.group(match.lastgroup))\<close>.
\<close>

function search :: "'k rule list \<Rightarrow> string \<Rightarrow> nat \<Rightarrow> (nat \<times> 'k rule \<times> string) option" where
  "search rules code p =
     (if length code < p then None
      else (case match_at rules code p of
              Some (r, v) \<Rightarrow> Some (p, r, v)
            | None \<Rightarrow> search rules code (p + 1)))"
  by pat_completeness auto
termination
  by (relation "measure (\<lambda>(rules, code, p). Suc (length code) - p)") auto

text \<open>
  The \<open>while True\<close> loop of \<open>tokenize\<close>. It does not return when a match is empty
  (the scan position stays where it is): not returning is the value \<open>None\<close>.
\<close>

partial_function (option) tokenize_loop ::
  "'k rule list \<Rightarrow> string \<Rightarrow> string option \<Rightarrow> bool \<Rightarrow> nat \<Rightarrow> 'k token list \<Rightarrow> 'k token list option"
where
  "tokenize_loop rules code file_name create_locations start tokens =
     (case search rules code start of
        None \<Rightarrow> Some tokens
      | Some (mstart, r, v) \<Rightarrow>
          (let mend = mstart + length v;
               lexpos = (int start, int mend - 1);
               location = (if create_locations then Some (file_name, lexpos) else None);
               token = Token (rule_kind r) v location;
               token' = (case func r of None \<Rightarrow> Some token | Some f \<Rightarrow> f token)
           in tokenize_loop rules code file_name create_locations mend
                (case token' of None \<Rightarrow> tokens | Some t \<Rightarrow> tokens @ [t])))"

declare tokenize_loop.simps [code]

text \<open>
  \<open>tokenize\<close>: before \<open>finalize\<close> the compiled expression is \<open>None\<close> and
  \<open>None.search\<close> raises AttributeError. With no rule at all the compiled expression
  is empty, matches the empty text with no group, and \<open>self._assoc[None]\<close> raises
  KeyError.
\<close>

definition tokenize ::
  "'k tokenizer \<Rightarrow> string \<Rightarrow> string option \<Rightarrow> bool \<Rightarrow> (py_error + 'k token list) option" where
  "tokenize t code file_name create_locations =
     (case regex t of
        None \<Rightarrow> Some (Inl AttributeError)
      | Some rules \<Rightarrow>
          if rules = [] then Some (Inl KeyError)
          else map_option Inr (tokenize_loop rules code file_name create_locations 0 []))"

text \<open>
  The text the specification describes for the round trip: the input with the
  characters that no rule matches removed. Walking the text from \<open>p\<close>, a non-empty
  match is kept whole and the walk goes on behind it; a character where nothing
  (or only the empty text) matches is removed.
\<close>

function keep_matched :: "'k rule list \<Rightarrow> string \<Rightarrow> nat \<Rightarrow> string" where
  "keep_matched rules code p =
     (if length code \<le> p then []
      else (case match_at rules code p of
              None \<Rightarrow> keep_matched rules code (p + 1)
            | Some (r, v) \<Rightarrow>
                if v = [] then keep_matched rules code (p + 1)
                else v @ keep_matched rules code (p + length v)))"
  by pat_completeness auto
termination
proof (relation "measure (\<lambda>(rules, code, p). length code - p)")
  fix rules :: "'k rule list" and code :: string and p :: nat and x :: "'k rule \<times> string"
    and r :: "'k rule" and v :: string
  assume "\<not> length code \<le> p" and "v \<noteq> []"
  then show "((rules, code, p + length v), (rules, code, p)) \<in> measure (\<lambda>(rules, code, p). length code - p)"
    by (cases v) auto
qed auto

declare search.simps [simp del]
declare keep_matched.simps [simp del]

text \<open>No match met while scanning \<open>code\<close> is empty.\<close>

definition never_empty :: "'k rule list \<Rightarrow> string \<Rightarrow> bool" where
  "never_empty rules code =
     list_all (\<lambda>p. case match_at rules code p of None \<Rightarrow> True | Some (r, v) \<Rightarrow> v \<noteq> [])
       [0..<Suc (length code)]"

subsection \<open>A small tokenizer to run the definitions on\<close>

definition digit :: "string \<Rightarrow> nat \<Rightarrow> nat option" where
  "digit code p = (if p < length code \<and> code ! p \<in> set ''0123456789'' then Some 1 else None)"

definition lower :: "string \<Rightarrow> nat \<Rightarrow> nat option" where
  "lower code p =
     (if p < length code \<and> code ! p \<in> set ''abcdefghijklmnopqrstuvwxyz'' then Some 1 else None)"

definition digits_tokenizer :: "token_kind tokenizer" where
  "digits_tokenizer =
     (case finalize (fst (add ''DIGIT'' digit None init_tokenizer)) of
        Inr t \<Rightarrow> t | Inl e \<Rightarrow> init_tokenizer)"

definition two_rule_tokenizer :: "token_kind tokenizer" where
  "two_rule_tokenizer =
     (case finalize (fst (add ''LOWER'' lower None (fst (add ''DIGIT'' digit None init_tokenizer)))) of
        Inr t \<Rightarrow> t | Inl e \<Rightarrow> init_tokenizer)"

section \<open>Token streams (class TokenStream)\<close>

text \<open>
  Reading \<open>xs[i]\<close> from a Python list: for \<open>0 \<le> i < len\<close> the element at
  \<open>i\<close>, for \<open>-len \<le> i < 0\<close> the element at \<open>len + i\<close>, and IndexError
  for every other \<open>i\<close>.
\<close>

definition py_index :: "'a list \<Rightarrow> int \<Rightarrow> py_error + 'a" where
  "py_index xs i =
     (if 0 \<le> i \<and> i < int (length xs) then Inr (xs ! nat i)
      else if i < 0 \<and> - int (length xs) \<le> i then Inr (xs ! nat (int (length xs) + i))
      else Inl IndexError)"

text \<open>The fields \<open>_tokens\<close> and \<open>_idx\<close>; the cursor starts at 0 and only moves forward.\<close>

record 'k token_stream =
  stream_tokens :: "'k token list"
  stream_idx :: nat

definition TokenStream :: "'k token list \<Rightarrow> 'k token_stream" where
  "TokenStream toks = \<lparr>stream_tokens = toks, stream_idx = 0\<rparr>"

definition eof :: "'k token_stream \<Rightarrow> bool" where
  "eof s = (\<not> stream_idx s < length (stream_tokens s))"

definition current :: "'k token_stream \<Rightarrow> py_error + 'k token" where
  "current s = py_index (stream_tokens s) (int (stream_idx s))"

definition peek :: "'k token_stream \<Rightarrow> int \<Rightarrow> py_error + 'k token" where
  "peek s offset = py_index (stream_tokens s) (int (stream_idx s) + offset)"

text \<open>
  \<open>skip_while\<close> and \<open>skip_until\<close> return the new cursor; here they return the stream,
  whose \<open>stream_idx\<close> is that cursor.
\<close>

function skip_while :: "'k list \<Rightarrow> 'k token_stream \<Rightarrow> 'k token_stream" where
  "skip_while kinds s =
     (if eof s then s
      else if kind (stream_tokens s ! stream_idx s) \<notin> set kinds then s
      else skip_while kinds (s\<lparr>stream_idx := stream_idx s + 1\<rparr>))"
  by pat_completeness auto
termination
  by (relation "measure (\<lambda>(kinds, s). length (stream_tokens s) - stream_idx s)")
    (auto simp: eof_def)

function skip_until :: "'k list \<Rightarrow> 'k token_stream \<Rightarrow> 'k token_stream" where
  "skip_until kinds s =
     (if eof s then s
      else if kind (stream_tokens s ! stream_idx s) \<in> set kinds then s
      else skip_until kinds (s\<lparr>stream_idx := stream_idx s + 1\<rparr>))"
  by pat_completeness auto
termination
  by (relation "measure (\<lambda>(kinds, s). length (stream_tokens s) - stream_idx s)")
    (auto simp: eof_def)

declare skip_while.simps [simp del]
declare skip_until.simps [simp del]

text \<open>\<open>pop\<close> returns \<open>None\<close> at the end of the stream and leaves the cursor there.\<close>

definition pop :: "'k token_stream \<Rightarrow> 'k token option \<times> 'k token_stream" where
  "pop s =
     (if eof s then (None, s)
      else (Some (stream_tokens s ! stream_idx s), s\<lparr>stream_idx := stream_idx s + 1\<rparr>))"

text \<open>\<open>self._tokens[start:end]\<close>, for the cursor values it is called with.\<close>

definition slice :: "'k token_stream \<Rightarrow> nat \<Rightarrow> nat \<Rightarrow> 'k token list" where
  "slice s start end = drop start (take end (stream_tokens s))"

section \<open>Describing a location (describe_location)\<close>

definition newline :: char where
  "newline = CHR 0x0A"

text \<open>
  \<open>str.splitlines\<close> of Python, on characters below 256: a line ends at LF, VT, FF, CR,
  FS, GS, RS or NEL, CR LF counts as one boundary, and a text that ends with a
  boundary has no empty last line.
\<close>

definition is_linebreak :: "char \<Rightarrow> bool" where
  "is_linebreak c =
     (c \<in> set [CHR 0x0A, CHR 0x0B, CHR 0x0C, CHR 0x0D, CHR 0x1C, CHR 0x1D, CHR 0x1E, CHR 0x85])"

fun splitlines_from :: "bool \<Rightarrow> string \<Rightarrow> string \<Rightarrow> string list" where
  "splitlines_from after_cr cur [] = (if cur = [] then [] else [rev cur])"
| "splitlines_from after_cr cur (c # cs) =
     (if after_cr \<and> c = CHR 0x0A then splitlines_from False cur cs
      else if is_linebreak c then rev cur # splitlines_from (c = CHR 0x0D) [] cs
      else splitlines_from False (c # cur) cs)"

definition splitlines :: "string \<Rightarrow> string list" where
  "splitlines s = splitlines_from False [] s"

text \<open>The format \<open>%i\<close> of a line number, and \<open>%s\<close> of the file name.\<close>

function str_nat :: "nat \<Rightarrow> string" where
  "str_nat n =
     (if n < 10 then [''0123456789'' ! n]
      else str_nat (n div 10) @ [''0123456789'' ! (n mod 10)])"
  by pat_completeness auto
termination
  by (relation "measure id") auto

declare str_nat.simps [simp del]

definition str_file_name :: "string option \<Rightarrow> string" where
  "str_file_name f = (case f of None \<Rightarrow> ''None'' | Some n \<Rightarrow> n)"

text \<open>
  The \<open>for lineno, line in enumerate(contents.splitlines())\<close> loop, with \<open>count\<close>
  the offset of the line's first character. \<open>" " * n\<close> and \<open>"~" * n\<close> are empty
  for \<open>n \<le> 0\<close>. When no line holds \<open>start\<close> the function falls off its end and
  returns Python's \<open>None\<close>.
\<close>

fun describe_lines ::
  "string option \<Rightarrow> int \<Rightarrow> int \<Rightarrow> nat \<Rightarrow> int \<Rightarrow> string list \<Rightarrow> string option" where
  "describe_lines file_name start end lineno count [] = None"
| "describe_lines file_name start end lineno count (line # rest) =
     (let lstart = count;
          lend = lstart + int (length line)
      in if lstart \<le> start \<and> start \<le> lend then
           Some (''from '' @ str_file_name file_name @ '' line '' @ str_nat (lineno + 1) @ '':''
                 @ [newline] @ line @ [newline]
                 @ replicate (nat (start - lstart)) CHR '' ''
                 @ replicate (nat (min (lend - 1) end - start + 1)) CHR ''~'')
         else describe_lines file_name start end (lineno + 1) (lend + 1) rest)"

text \<open>
  \<open>file_exists\<close> and \<open>read_file\<close> come from vunit.ostools and reach the file system:
  they are parameters. \<open>read_file\<close> gives \<open>None\<close> where reading raises.
\<close>

definition describe_location ::
  "(string option \<Rightarrow> bool) \<Rightarrow> (string option \<Rightarrow> string option) \<Rightarrow> location option
     \<Rightarrow> py_error + string option" where
  "describe_location file_exists read_file loc =
     (case loc of
        None \<Rightarrow> Inr (Some ''Unknown location'')
      | Some (file_name, start, end) \<Rightarrow>
          if \<not> file_exists file_name then
            Inr (Some (''Unknown location in '' @ str_file_name file_name))
          else (case read_file file_name of
                  None \<Rightarrow> Inl IOError
                | Some contents \<Rightarrow>
                    Inr (describe_lines file_name start end 0 0 (splitlines contents))))"

text \<open>
  The offset of the first character of line \<open>i\<close>, as the loop counts it: every line
  before it takes its length and one more for its terminator.
\<close>

definition line_start :: "string list \<Rightarrow> nat \<Rightarrow> int" where
  "line_start lines i = (\<Sum>l\<leftarrow>take i lines. int (length l) + 1)"

text \<open>
  The length of the underline as the specification words it,
  \<open>max(1, min(line_end - 1, end_offset) - start_offset + 1)\<close>, to compare with what
  \<open>describe_lines\<close> prints.
\<close>

definition claimed_underline_length :: "int \<Rightarrow> int \<Rightarrow> int \<Rightarrow> int" where
  "claimed_underline_length lend start end = max 1 (min (lend - 1) end - start + 1)"

section \<open>The Verilog preprocessor (vunit/parsing/verilog/preprocess.py)\<close>

text \<open>
  Modelled from the spec: the token kinds of vunit/parsing/verilog/tokenizer.py, a module
  of the repository that is not among the sources. The preprocessor compares kinds with
  the constants below (directive, whitespace, newline, identifier, string-literal,
  parentheses, comma and equal tokens); every other kind of that tokenizer is
  \<open>OTHER\<close> with its display name.
\<close>

datatype vkind =
  PREPROCESSOR | WHITESPACE | NEWLINE | IDENTIFIER | STRING | LPAR | RPAR | COMMA | EQUAL
  | OTHER string

type_synonym vtoken = "vkind token"
type_synonym vstream = "vkind token_stream"

subsection \<open>class Macro\<close>

record macro =
  name :: string
  tokens :: "vtoken list"
  args :: "string list"
  defaults :: "string \<rightharpoonup> vtoken list"

definition Macro ::
  "string \<Rightarrow> vtoken list \<Rightarrow> string list \<Rightarrow> (string \<rightharpoonup> vtoken list) \<Rightarrow> macro" where
  "Macro n toks as ds = \<lparr>name = n, tokens = toks, args = as, defaults = ds\<rparr>"

definition num_args :: "macro \<Rightarrow> nat" where
  "num_args m = length (args m)"

text \<open>\<open>self.args.index(x)\<close>, called only for an \<open>x\<close> that is in \<open>self.args\<close>.\<close>

fun index :: "string list \<Rightarrow> string \<Rightarrow> nat" where
  "index [] x = 0"
| "index (a # as) x = (if a = x then 0 else Suc (index as x))"

text \<open>
  \<open>expand\<close>: the loop over the body, with the list \<open>tokens\<close> built so far as
  \<open>toks\<close>. A parameter that the actuals do not cover and that has no default
  ends the expansion with the empty list.
\<close>

fun expand_loop :: "macro \<Rightarrow> vtoken list list \<Rightarrow> vtoken list \<Rightarrow> vtoken list \<Rightarrow> vtoken list" where
  "expand_loop m values [] toks = toks"
| "expand_loop m values (token # rest) toks =
     (if kind token = IDENTIFIER \<and> val token \<in> set (args m) then
        (let idx = index (args m) (val token)
         in if length values \<le> idx then
              (case defaults m (val token) of
                 None \<Rightarrow> []
               | Some value \<Rightarrow> expand_loop m values rest (toks @ value))
            else expand_loop m values rest (toks @ values ! idx))
      else expand_loop m values rest (toks @ [token]))"

definition expand :: "macro \<Rightarrow> vtoken list list \<Rightarrow> vtoken list" where
  "expand m values = expand_loop m values (tokens m) []"

lemma pop_Some_measure:
  "pop s = (Some t, s') \<Longrightarrow>
     length (stream_tokens s') - stream_idx s' < length (stream_tokens s) - stream_idx s"
  by (auto simp: pop_def eof_def split: if_splits)

text \<open>
  \<open>_parse_macro_actuals\<close>: the \<open>while token.kind != RPAR\<close> loop with the current
  token, the argument \<open>value\<close> being collected and the arguments \<open>values\<close>
  finished; \<open>None\<close> when the stream ends before the closing parenthesis.
\<close>

function parse_actuals_loop ::
  "vtoken \<Rightarrow> vtoken list \<Rightarrow> vtoken list list \<Rightarrow> vstream \<Rightarrow> vtoken list list option \<times> vstream" where
  "parse_actuals_loop token value values stream =
     (if kind token = RPAR then (Some (values @ [value]), stream)
      else (case pop stream of
              (None, stream') \<Rightarrow> (None, stream')
            | (Some t, stream') \<Rightarrow>
                if kind token = COMMA then parse_actuals_loop t [] (values @ [value]) stream'
                else parse_actuals_loop t (value @ [token]) values stream'))"
  by pat_completeness auto
termination
  by (relation "measure (\<lambda>(token, value, values, stream).
        length (stream_tokens stream) - stream_idx stream)")
    (auto dest: pop_Some_measure[OF sym])

declare parse_actuals_loop.simps [simp del]

definition parse_macro_actuals :: "vstream \<Rightarrow> vtoken list list option \<times> vstream" where
  "parse_macro_actuals stream =
     (case pop stream of
        (None, s1) \<Rightarrow> (None, s1)
      | (Some token, s1) \<Rightarrow>
          if kind token \<noteq> LPAR then (None, s1)
          else (case pop s1 of
                  (None, s2) \<Rightarrow> (None, s2)
                | (Some token, s2) \<Rightarrow> parse_actuals_loop token [] [] s2))"

definition expand_from_stream :: "macro \<Rightarrow> vstream \<Rightarrow> vtoken list \<times> vstream" where
  "expand_from_stream m stream =
     (if num_args m = 0 then (expand m [], stream)
      else (case parse_macro_actuals stream of
              (None, stream') \<Rightarrow> ([], stream')
            | (Some values, stream') \<Rightarrow> (expand m values, stream')))"

subsection \<open>What the preprocessor reaches outside the program\<close>

text \<open>
  \<open>os.path.exists\<close>; reading a file (\<open>None\<close> where \<open>open\<close> or \<open>read\<close>
  raises); \<open>tokenize\<close> of vunit/parsing/verilog/tokenizer.py, which is not among the
  sources and is taken as the parameter \<open>vtokenize\<close>; and \<open>file_exists\<close> and
  \<open>read_file\<close> of vunit.ostools, which \<open>describe_location\<close> calls.
\<close>

record env =
  exists :: "string \<Rightarrow> bool"
  read :: "string \<Rightarrow> string option"
  vtokenize :: "string \<Rightarrow> vtoken list"
  ostools_file_exists :: "string option \<Rightarrow> bool"
  ostools_read_file :: "string option \<Rightarrow> string option"

subsection \<open>The define directive\<close>

text \<open>
  The parameter list of a define: the \<open>while token.kind != RPAR\<close> loop, with the
  tuple \<open>args\<close> as \<open>as\<close> and the dictionary \<open>defaults\<close> as \<open>ds\<close>. After an
  \<open>=\<close> the next token is stored as the default and one more token is popped; when
  the stream has ended by then the loop returns \<open>None\<close>.
\<close>

function define_args ::
  "vtoken \<Rightarrow> string list \<Rightarrow> (string \<rightharpoonup> vtoken list) \<Rightarrow> vstream
     \<Rightarrow> (string list \<times> (string \<rightharpoonup> vtoken list)) option \<times> vstream" where
  "define_args token as ds stream =
     (if kind token = RPAR then (Some (as, ds), stream)
      else if kind token = IDENTIFIER then
        (case pop stream of
           (None, s1) \<Rightarrow> (None, s1)
         | (Some t1, s1) \<Rightarrow>
             if kind t1 = EQUAL then
               (case pop s1 of
                  (None, s2) \<Rightarrow> (None, snd (pop s2))
                | (Some d, s2) \<Rightarrow>
                    (case pop s2 of
                       (None, s3) \<Rightarrow> (None, s3)
                     | (Some t3, s3) \<Rightarrow>
                         define_args t3 (as @ [val token]) (ds(val token \<mapsto> [d])) s3))
             else define_args t1 (as @ [val token]) ds s1)
      else (case pop stream of
              (None, s1) \<Rightarrow> (None, s1)
            | (Some t1, s1) \<Rightarrow> define_args t1 as ds s1))"
  by pat_completeness auto
termination
proof (relation "measure (\<lambda>(token, as, ds, stream).
        length (stream_tokens stream) - stream_idx stream)")
  fix token :: vtoken and as :: "string list" and ds :: "string \<rightharpoonup> vtoken list"
    and stream s1 s2 s3 :: vstream and t1 d t3 :: vtoken and x1 x1a x1b :: "vtoken option"
  assume "(x1, s1) = pop stream" "x1 = Some t1" "(x1a, s2) = pop s1" "x1a = Some d"
    "(x1b, s3) = pop s2" "x1b = Some t3"
  then have "pop stream = (Some t1, s1)" "pop s1 = (Some d, s2)" "pop s2 = (Some t3, s3)"
    by simp_all
  from this[THEN pop_Some_measure]
  show "((t3, as @ [val token], ds(val token \<mapsto> [d]), s3), (token, as, ds, stream))
      \<in> measure (\<lambda>(token, as, ds, stream). length (stream_tokens stream) - stream_idx stream)"
    by simp
qed (auto dest: pop_Some_measure[OF sym])

declare define_args.simps [simp del]

text \<open>
  The end of \<open>define\<close>, from the second \<open>skip_while\<close> on. \<open>bound\<close> holds the local
  variables \<open>args\<close> and \<open>defaults\<close>, and is \<open>None\<close> when no branch has assigned
  them: building the macro then raises UnboundLocalError.
\<close>

definition define_body ::
  "string \<Rightarrow> (string list \<times> (string \<rightharpoonup> vtoken list)) option \<Rightarrow> vstream
     \<Rightarrow> py_error + macro option \<times> vstream" where
  "define_body nm bound stream =
     (let s1 = skip_while [WHITESPACE] stream;
          start = stream_idx s1;
          s2 = skip_until [NEWLINE] s1;
          end = stream_idx s2;
          s3 = (if \<not> eof s2 then snd (pop s2) else s2)
      in case bound of
           None \<Rightarrow> Inl UnboundLocalError
         | Some (as, ds) \<Rightarrow> Inr (Some (Macro nm (slice s3 start end) as ds), s3))"

text \<open>
  \<open>LOGGER.warning(..., describe_location(loc))\<close> followed by a return: the location
  is described first, and an exception of \<open>describe_location\<close> leaves the function. The
  text that is logged changes no result.
\<close>

definition warning_at :: "env \<Rightarrow> location option \<Rightarrow> py_error + 'a \<Rightarrow> py_error + 'a" where
  "warning_at E loc r =
     (case describe_location (ostools_file_exists E) (ostools_read_file E) loc of
        Inl e \<Rightarrow> Inl e
      | Inr description \<Rightarrow> r)"

text \<open>
  The function \<open>define\<close> (named \<open>define_macro\<close> here). A missing name (end of the
  stream or a newline) is reported at the location of the define token, a name that is
  no identifier at its own location. After the name, a whitespace or newline token
  assigns empty \<open>args\<close> and \<open>defaults\<close>, an opening parenthesis starts the parameter
  list, and any other token assigns neither. \<open>LOGGER.debug\<close> takes ready texts and is
  left out.
\<close>

definition define_macro ::
  "env \<Rightarrow> vtoken \<Rightarrow> vstream \<Rightarrow> py_error + macro option \<times> vstream" where
  "define_macro E define_token stream =
     (case pop (skip_while [WHITESPACE] stream) of
        (None, s1) \<Rightarrow> warning_at E (location define_token) (Inr (None, s1))
      | (Some name_token, s1) \<Rightarrow>
          if kind name_token = NEWLINE then
            warning_at E (location define_token) (Inr (None, s1))
          else if kind name_token \<noteq> IDENTIFIER then
            warning_at E (location name_token) (Inr (None, s1))
          else (case pop s1 of
                  (None, s2) \<Rightarrow> Inr (Some (Macro (val name_token) [] [] Map.empty), s2)
                | (Some token, s2) \<Rightarrow>
                    if kind token = WHITESPACE \<or> kind token = NEWLINE then
                      define_body (val name_token) (Some ([], Map.empty)) s2
                    else if kind token = LPAR then
                      (case define_args token [] Map.empty s2 of
                         (None, s3) \<Rightarrow> Inr (None, s3)
                       | (Some bound, s3) \<Rightarrow> define_body (val name_token) (Some bound) s3)
                    else define_body (val name_token) None s2))"

subsection \<open>The driver\<close>

text \<open>\<open>os.path.join\<close> of two components (posixpath).\<close>

definition join :: "string \<Rightarrow> string \<Rightarrow> string" where
  "join a b =
     (if b \<noteq> [] \<and> hd b = CHR ''/'' then b
      else if a = [] \<or> last a = CHR ''/'' then a @ b
      else a @ ''/'' @ b)"


text \<open>
  The \<open>for include_path in include_paths\<close> loop with its \<open>else\<close>: the joined path
  of the first directory where it exists, \<open>None\<close> when the loop ends without
  \<open>break\<close>.
\<close>

fun resolve :: "env \<Rightarrow> string list \<Rightarrow> string \<Rightarrow> string option" where
  "resolve E [] file_name = None"
| "resolve E (include_path # rest) file_name =
     (let full_name = join include_path file_name
      in if exists E full_name then Some full_name else resolve E rest file_name)"

type_synonym definitions = "string \<rightharpoonup> macro"

text \<open>
  The part of the include branch that finds \<open>file_name\<close>: \<open>None\<close> where the source
  says \<open>continue\<close> before a file name is known.
\<close>

definition include_file_name :: "definitions \<Rightarrow> vstream \<Rightarrow> string option \<times> vstream" where
  "include_file_name defs stream =
     (case pop (skip_while [WHITESPACE] stream) of
        (None, s1) \<Rightarrow> (None, s1)
      | (Some tok, s1) \<Rightarrow>
          if kind tok = PREPROCESSOR then
            (case defs (val tok) of
               None \<Rightarrow> (None, s1)
             | Some m \<Rightarrow>
                 (case expand_from_stream m s1 of
                    ([], s2) \<Rightarrow> (None, s2)
                  | (t # ts, s2) \<Rightarrow>
                      if kind t \<noteq> STRING then (None, s2) else (Some (val t), s2)))
          else if kind tok = STRING then (Some (val tok), s1)
          else (None, s1))"

text \<open>
  The \<open>while not stream.eof\<close> loop of \<open>preprocess\<close>. The dictionary \<open>defines\<close>
  (\<open>defs\<close> here) and the list \<open>included_files\<close> are shared with the recursive
  call: the state is passed in and the updated state comes back with the result. A
  chain of includes that never ends does not return, which is the value \<open>None\<close>;
  \<open>Some (Inl e)\<close> is an exception, \<open>Some (Inr (result, defs, included_files))\<close> a
  normal return. The first \<open>if\<close> of the source handles \<open>define\<close>; the chain
  \<open>if ... include ... elif ... in defines\<close> follows it for every directive.
\<close>

partial_function (option) preprocess_loop ::
  "env \<Rightarrow> string list \<Rightarrow> vstream \<Rightarrow> definitions \<Rightarrow> string list \<Rightarrow> vtoken list
     \<Rightarrow> (py_error + vtoken list \<times> definitions \<times> string list) option"
where
  "preprocess_loop E include_paths stream defs included_files result =
     (case pop stream of
        (None, s0) \<Rightarrow> Some (Inr (result, defs, included_files))
      | (Some token, s1) \<Rightarrow>
          if kind token \<noteq> PREPROCESSOR then
            preprocess_loop E include_paths s1 defs included_files (result @ [token])
          else
            (case (if val token = ''define'' then define_macro E token s1 else Inr (None, s1)) of
               Inl e \<Rightarrow> Some (Inl e)
             | Inr (new_macro, s2) \<Rightarrow>
                 (let defs2 = (case new_macro of None \<Rightarrow> defs | Some m \<Rightarrow> defs(name m \<mapsto> m))
                  in if val token = ''include'' then
                       (case include_file_name defs2 s2 of
                          (None, s3) \<Rightarrow>
                            preprocess_loop E include_paths s3 defs2 included_files result
                        | (Some file_name, s3) \<Rightarrow>
                            (case resolve E include_paths file_name of
                               None \<Rightarrow>
                                 preprocess_loop E include_paths s3 defs2 included_files result
                             | Some full_name \<Rightarrow>
                                 (case read E full_name of
                                    None \<Rightarrow> Some (Inl IOError)
                                  | Some text \<Rightarrow>
                                      Option.bind
                                        (preprocess_loop E include_paths
                                           (TokenStream (vtokenize E text))
                                           defs2 (included_files @ [full_name]) [])
                                        (\<lambda>r. case r of
                                           Inl e \<Rightarrow> Some (Inl e)
                                         | Inr (toks, defs3, included3) \<Rightarrow>
                                             preprocess_loop E include_paths s3 defs3 included3
                                               (result @ toks)))))
                     else
                       (case defs2 (val token) of
                          Some m \<Rightarrow>
                            (case expand_from_stream m s2 of
                               (toks, s3) \<Rightarrow>
                                 preprocess_loop E include_paths s3 defs2 included_files
                                   (result @ toks))
                        | None \<Rightarrow>
                            preprocess_loop E include_paths s2 defs2 included_files result))))"

declare preprocess_loop.simps [code]

definition preprocess ::
  "env \<Rightarrow> vtoken list \<Rightarrow> definitions \<Rightarrow> string list \<Rightarrow> string list
     \<Rightarrow> (py_error + vtoken list \<times> definitions \<times> string list) option" where
  "preprocess E toks defs include_paths included_files =
     preprocess_loop E include_paths (TokenStream toks) defs included_files []"

text \<open>
  The output and the included-files log of a run, without the definitions table
  (macros hold functions and cannot be compared by evaluation).
\<close>

definition out ::
  "(py_error + vtoken list \<times> definitions \<times> string list) option
     \<Rightarrow> (py_error + vtoken list \<times> string list) option" where
  "out r = map_option (map_sum id (\<lambda>(toks, defs, inc). (toks, inc))) r"


text \<open>
  \<open>s'\<close> is the stream \<open>s\<close> with its cursor moved forward, or left where it was.
\<close>

definition advances :: "'k token_stream \<Rightarrow> 'k token_stream \<Rightarrow> bool" where
  "advances s s' = (stream_tokens s' = stream_tokens s \<and> stream_idx s \<le> stream_idx s')"

text \<open>
  What the expansion puts in the place of one body token: the actual or the default of
  the parameter it names, or the token itself.
\<close>

definition names_parameter :: "macro \<Rightarrow> vtoken \<Rightarrow> bool" where
  "names_parameter m t = (kind t = IDENTIFIER \<and> val t \<in> set (args m))"

definition substitute :: "macro \<Rightarrow> vtoken list list \<Rightarrow> vtoken \<Rightarrow> vtoken list" where
  "substitute m values t =
     (if names_parameter m t then
        (if index (args m) (val t) < length values then values ! index (args m) (val t)
         else (case defaults m (val t) of Some d \<Rightarrow> d | None \<Rightarrow> []))
      else [t])"

subsection \<open>Token lists, macros and file systems to run the definitions on\<close>

definition tk :: "vkind \<Rightarrow> string \<Rightarrow> vtoken" where
  "tk k v = Token k v None"

definition no_files :: env where
  "no_files =
     \<lparr>exists = (\<lambda>p. False), read = (\<lambda>p. None), vtokenize = (\<lambda>s. []),
      ostools_file_exists = (\<lambda>f. False), ostools_read_file = (\<lambda>f. None)\<rparr>"


text \<open>The macros of \<open>`define foo(arg1, arg2) arg1 arg2\<close>, without and with a default.\<close>

definition foo_no_default :: macro where
  "foo_no_default =
     Macro ''foo'' [tk IDENTIFIER ''arg1'', tk WHITESPACE '' '', tk IDENTIFIER ''arg2'']
       [''arg1'', ''arg2''] Map.empty"

definition foo_default :: macro where
  "foo_default =
     Macro ''foo'' [tk IDENTIFIER ''arg1'', tk WHITESPACE '' '', tk IDENTIFIER ''arg2'']
       [''arg1'', ''arg2''] [''arg2'' \<mapsto> [tk IDENTIFIER ''default'']]"

text \<open>The macro of \<open>`define foo bar "abc"\<close>.\<close>

definition foo_bar :: macro where
  "foo_bar =
     Macro ''foo'' [tk IDENTIFIER ''bar'', tk WHITESPACE '' '', tk STRING ''abc''] [] Map.empty"

text \<open>The macro of \<open>`define foo(a, b=d, c) b c\<close>, with the body \<open>b c\<close> as two tokens.\<close>

definition abc_macro :: macro where
  "abc_macro =
     Macro ''foo'' [tk IDENTIFIER ''b'', tk IDENTIFIER ''c''] [''a'', ''b'', ''c'']
       [''b'' \<mapsto> [tk IDENTIFIER ''d'']]"

text \<open>
  The tokens of \<open>`define foo(arg1, arg2) arg1 arg2\<close> and of
  \<open>`define foo(arg1, arg2=default) arg1 arg2\<close>, each followed by a line \<open>`foo(1)\<close>.
\<close>

definition define_two_args_src :: "vtoken list" where
  "define_two_args_src =
     [tk PREPROCESSOR ''define'', tk WHITESPACE '' '', tk IDENTIFIER ''foo'', tk LPAR ''('',
      tk IDENTIFIER ''arg1'', tk COMMA '','', tk WHITESPACE '' '', tk IDENTIFIER ''arg2'',
      tk RPAR '')'',
      tk WHITESPACE '' '', tk IDENTIFIER ''arg1'', tk WHITESPACE '' '', tk IDENTIFIER ''arg2'',
      tk NEWLINE ''\<newline>'',
      tk PREPROCESSOR ''foo'', tk LPAR ''('', tk (OTHER ''INTEGER'') ''1'', tk RPAR '')'']"

definition define_default_src :: "vtoken list" where
  "define_default_src =
     [tk PREPROCESSOR ''define'', tk WHITESPACE '' '', tk IDENTIFIER ''foo'', tk LPAR ''('',
      tk IDENTIFIER ''arg1'', tk COMMA '','', tk WHITESPACE '' '', tk IDENTIFIER ''arg2'',
      tk EQUAL ''='', tk IDENTIFIER ''default'', tk RPAR '')'',
      tk WHITESPACE '' '', tk IDENTIFIER ''arg1'', tk WHITESPACE '' '', tk IDENTIFIER ''arg2'',
      tk NEWLINE ''\<newline>'',
      tk PREPROCESSOR ''foo'', tk LPAR ''('', tk (OTHER ''INTEGER'') ''1'', tk RPAR '')'']"

text \<open>The tokens of \<open>`define foo"abc"\<close> and of \<open>`include "include.svh"\<close>.\<close>

definition define_string_src :: "vtoken list" where
  "define_string_src =
     [tk PREPROCESSOR ''define'', tk WHITESPACE '' '', tk IDENTIFIER ''foo'', tk STRING ''abc'']"


section \<open>Properties of the tokenizer\<close>

text \<open>
  C1. With \<open>create_locations\<close> a token's span should be \<open>[match_start, match_end - 1]\<close>.
  The code builds \<open>lexpos\<close> from the scan position \<open>start\<close>, not from
  \<open>match.start()\<close>: on the text \<open>x1\<close>, where \<open>x\<close> matches no rule, the match of
  \<open>1\<close> begins at 1 and ends at 2, and the token's span is \<open>(0, 1)\<close>, not \<open>(1, 1)\<close>.
\<close>

theorem tokenize_span_starts_at_scan_position:
  "map_option (\<lambda>(mstart, r, v). (mstart, rule_kind r, v)) (search (regexs digits_tokenizer) ''x1'' 0)
     = Some (1, TokenKind 0 ''DIGIT'', ''1'')
   \<and> tokenize digits_tokenizer ''x1'' (Some ''fn.v'') True
     = Some (Inr [Token (TokenKind 0 ''DIGIT'') ''1'' (Some (Some ''fn.v'', 0, 1))])"
  by code_simp

text \<open>
  In general: one round of the loop, for a rule without post-processor, appends a token
  whose span begins at the scan position \<open>start\<close>, wherever the match begins.
\<close>

lemma tokenize_loop_round:
  assumes "search rules code start = Some (mstart, r, v)" and "func r = None"
  shows "tokenize_loop rules code file_name True start toks
     = tokenize_loop rules code file_name True (mstart + length v)
         (toks @ [Token (rule_kind r) v (Some (file_name, int start, int (mstart + length v) - 1))])"
  using assms by (subst tokenize_loop.simps) (simp add: Let_def)

subsection \<open>The scan and the text it keeps\<close>

lemma match_at_in_set: "match_at rules code p = Some (r, v) \<Longrightarrow> r \<in> set rules"
  by (induction rules) (auto split: option.splits)

lemma match_at_length: "match_at rules code p = Some (r, v) \<Longrightarrow> length v \<le> length code - p"
  by (induction rules) (auto split: option.splits)

lemma search_Some:
  "search rules code p = Some (ms, r, v) \<Longrightarrow>
     p \<le> ms \<and> ms \<le> length code \<and> match_at rules code ms = Some (r, v)
     \<and> (\<forall>q. p \<le> q \<and> q < ms \<longrightarrow> match_at rules code q = None)"
proof (induction rules code p rule: search.induct)
  case (1 rules code p)
  show ?case
  proof (cases "match_at rules code p")
    case None
    with "1.prems" have le: "\<not> length code < p" and s: "search rules code (p + 1) = Some (ms, r, v)"
      by (auto simp: search.simps[of rules code p] split: if_splits)
    from "1.IH"[OF le None s] None show ?thesis
      by (auto simp: le_Suc_eq Suc_le_eq dest: le_neq_implies_less)
  next
    case (Some a)
    with "1.prems" show ?thesis by (auto simp: search.simps[of rules code p] split: if_splits)
  qed
qed

lemma search_None:
  "search rules code p = None \<Longrightarrow> p \<le> q \<Longrightarrow> q \<le> length code \<Longrightarrow> match_at rules code q = None"
proof (induction rules code p rule: search.induct)
  case (1 rules code p)
  from "1.prems" have le: "\<not> length code < p" by simp
  with "1.prems"(1) have m: "match_at rules code p = None" and s: "search rules code (p + 1) = None"
    by (auto simp: search.simps[of rules code p] split: option.splits)
  show ?case
  proof (cases "q = p")
    case True
    with m show ?thesis by simp
  next
    case False
    with "1.prems" have "p + 1 \<le> q" by simp
    from "1.IH"[OF le m s this "1.prems"(3)] show ?thesis .
  qed
qed

lemma keep_matched_skip:
  "p \<le> ms \<Longrightarrow> \<forall>q. p \<le> q \<and> q < ms \<longrightarrow> match_at rules code q = None \<Longrightarrow>
     ms \<le> length code \<Longrightarrow> keep_matched rules code p = keep_matched rules code ms"
proof (induction "ms - p" arbitrary: p)
  case 0
  then show ?case by simp
next
  case (Suc n)
  then have lt: "p < ms" and m: "match_at rules code p = None" by auto
  from Suc have "keep_matched rules code (p + 1) = keep_matched rules code ms"
    by (intro Suc.hyps(1)) auto
  with lt m Suc.prems(3) show ?case by (simp add: keep_matched.simps[of rules code p])
qed

lemma keep_matched_none:
  "\<forall>q. p \<le> q \<and> q \<le> length code \<longrightarrow> match_at rules code q = None \<Longrightarrow> keep_matched rules code p = []"
proof (induction rules code p rule: keep_matched.induct)
  case (1 rules code p)
  show ?case
  proof (cases "length code \<le> p")
    case True
    then show ?thesis by (simp add: keep_matched.simps[of rules code p])
  next
    case False
    with "1.prems" have m: "match_at rules code p = None" by simp
    from "1.IH"(1)[OF False m] "1.prems" have "keep_matched rules code (p + 1) = []" by simp
    with False m show ?thesis by (simp add: keep_matched.simps[of rules code p])
  qed
qed

lemma tokenize_loop_concat:
  "tokenize_loop rules code fn cl start toks = Some res \<Longrightarrow>
   list_all (\<lambda>r. func r = None) rules \<Longrightarrow>
   concat (map val res) = concat (map val toks) @ keep_matched rules code start"
proof (induction rule: tokenize_loop.raw_induct[rotated 1, consumes 1, case_names step])
  case (step loop rules code fn cl start toks res)
  show ?case
  proof (cases "search rules code start")
    case None
    with step.hyps have "res = toks" by simp
    moreover from None have "keep_matched rules code start = []"
      by (intro keep_matched_none) (auto dest: search_None)
    ultimately show ?thesis by simp
  next
    case (Some a)
    obtain ms r v where a: "a = (ms, r, v)" by (cases a)
    from Some a search_Some[of rules code start ms r v]
    have le: "start \<le> ms" "ms \<le> length code" and m: "match_at rules code ms = Some (r, v)"
      and skip: "\<forall>q. start \<le> q \<and> q < ms \<longrightarrow> match_at rules code q = None"
      by auto
    from m step.prems have f: "func r = None"
      by (auto dest!: match_at_in_set simp: list_all_iff)
    define tok where "tok = Token (rule_kind r) v (if cl then Some (fn, int start, int (ms + length v) - 1) else None)"
    from step.hyps Some a f
    have "loop rules code fn cl (ms + length v) (toks @ [tok]) = Some res"
      by (simp add: Let_def tok_def)
    from step.IH[OF this step.prems]
    have ih: "concat (map val res) = concat (map val toks) @ v @ keep_matched rules code (ms + length v)"
      by (simp add: tok_def Token_def)
    have "keep_matched rules code start = keep_matched rules code ms"
      using le skip by (intro keep_matched_skip) auto
    also have "\<dots> = v @ keep_matched rules code (ms + length v)"
    proof (cases "length code \<le> ms")
      case True
      with m match_at_length[OF m] show ?thesis
        by (simp add: keep_matched.simps[of rules code ms])
    next
      case False
      with m show ?thesis by (cases "v = []") (simp_all add: keep_matched.simps[of rules code ms])
    qed
    finally show ?thesis using ih by simp
  qed
qed

lemma never_emptyD:
  "never_empty rules code \<Longrightarrow> p \<le> length code \<Longrightarrow> match_at rules code p = Some (r, v) \<Longrightarrow> v \<noteq> []"
  by (auto simp: never_empty_def list_all_iff split: option.splits)

lemma tokenize_loop_returns:
  "never_empty rules code \<Longrightarrow> \<exists>res. tokenize_loop rules code fn cl start toks = Some res"
proof (induction "Suc (length code) - start" arbitrary: start toks rule: less_induct)
  case less
  show ?case
  proof (cases "search rules code start")
    case None
    then show ?thesis by (subst tokenize_loop.simps) simp
  next
    case (Some a)
    obtain ms r v where a: "a = (ms, r, v)" by (cases a)
    from Some a search_Some[of rules code start ms r v]
    have le: "start \<le> ms" "ms \<le> length code" and m: "match_at rules code ms = Some (r, v)"
      by auto
    from never_emptyD[OF less.prems le(2) m] have "v \<noteq> []" .
    then have "0 < length v" by simp
    with le have "Suc (length code) - (ms + length v) < Suc (length code) - start" by arith
    from less.hyps[OF this less.prems]
    have "\<And>toks'. \<exists>res. tokenize_loop rules code fn cl (ms + length v) toks' = Some res" .
    then show ?thesis using Some a
      by (subst tokenize_loop.simps) (simp add: Let_def)
  qed
qed


text \<open>
  C3. For a finalized tokenizer whose rules have no post-processor, the values of the
  tokens that \<open>tokenize\<close> returns, concatenated, are the input text with the
  characters that no rule matches removed, in order (\<open>keep_matched\<close>). The scan
  returns whenever there is a rule and no match is empty.
\<close>

theorem tokenize_concat_values:
  assumes "regex t = Some rules" and "list_all (\<lambda>r. func r = None) rules"
  shows "(\<forall>toks. tokenize t code fn cl = Some (Inr toks) \<longrightarrow>
            concat (map val toks) = keep_matched rules code 0)
       \<and> (rules \<noteq> [] \<and> never_empty rules code \<longrightarrow>
            (\<exists>toks. tokenize t code fn cl = Some (Inr toks)))"
proof (intro conjI allI impI)
  fix toks
  assume "tokenize t code fn cl = Some (Inr toks)"
  with assms(1) have "tokenize_loop rules code fn cl 0 [] = Some toks"
    by (auto simp: tokenize_def split: if_splits)
  from tokenize_loop_concat[OF this assms(2)]
  show "concat (map val toks) = keep_matched rules code 0" by simp
next
  assume "rules \<noteq> [] \<and> never_empty rules code"
  then have ne: "rules \<noteq> []" and nv: "never_empty rules code" by simp_all
  from tokenize_loop_returns[OF nv, of fn cl 0 "[]"]
  obtain res where "tokenize_loop rules code fn cl 0 [] = Some res" by blast
  with assms(1) ne have "tokenize t code fn cl = Some (Inr res)"
    by (simp add: tokenize_def)
  then show "\<exists>toks. tokenize t code fn cl = Some (Inr toks)" by blast
qed

theorem tokenize_concat_values_witness:
  "\<exists>toks. tokenize two_rule_tokenizer ''a1 b?2'' None False = Some (Inr toks)
      \<and> concat (map val toks) = ''a1b2''"
proof -
  let ?rules = "regexs two_rule_tokenizer"
  have r: "regex two_rule_tokenizer = Some ?rules"
    by (simp add: two_rule_tokenizer_def finalize_def add_def init_tokenizer_def Let_def)
  have f: "list_all (\<lambda>r. func r = None) ?rules"
    by (simp add: two_rule_tokenizer_def finalize_def add_def init_tokenizer_def Let_def)
  have ne: "?rules \<noteq> []"
    by (simp add: two_rule_tokenizer_def finalize_def add_def init_tokenizer_def Let_def)
  have nv: "never_empty ?rules ''a1 b?2''"
    by code_simp
  have k: "keep_matched ?rules ''a1 b?2'' 0 = ''a1b2''"
    by code_simp
  from tokenize_concat_values[OF r f, of "''a1 b?2''" None False] ne nv k
  show ?thesis by auto
qed

section \<open>Properties of token streams and of describe_location\<close>

text \<open>
  C10. For a non-empty stream and an offset with \<open>cursor + offset\<close> negative but at
  least \<open>-length\<close>, \<open>peek\<close> raises nothing: it returns the token at position
  \<open>length + cursor + offset\<close>, counting backward from the end of the sequence.
\<close>

theorem peek_negative_index:
  assumes "stream_tokens s \<noteq> []"
    and "int (stream_idx s) + offset < 0"
    and "- int (length (stream_tokens s)) \<le> int (stream_idx s) + offset"
  shows "peek s offset =
     Inr (stream_tokens s ! nat (int (length (stream_tokens s)) + int (stream_idx s) + offset))"
  using assms by (simp add: peek_def py_index_def algebra_simps)

theorem peek_negative_index_witness:
  "peek \<lparr>stream_tokens = [tk IDENTIFIER ''a'', tk IDENTIFIER ''b'', tk IDENTIFIER ''c''], stream_idx = 0\<rparr> (- 1)
     = Inr (tk IDENTIFIER ''c'')"
  using peek_negative_index[of "\<lparr>stream_tokens = [tk IDENTIFIER ''a'', tk IDENTIFIER ''b'', tk IDENTIFIER ''c''], stream_idx = 0\<rparr>" "- 1"]
  by simp

subsection \<open>The line that holds an offset\<close>

lemma line_start_Suc:
  "i < length lines \<Longrightarrow> line_start lines (Suc i) = line_start lines i + int (length (lines ! i)) + 1"
  by (simp add: line_start_def take_Suc_conv_app_nth)

lemma line_start_Cons:
  "line_start (l # ls) (Suc i) = int (length l) + 1 + line_start ls i"
  by (simp add: line_start_def)

lemma line_start_0: "line_start ls 0 = 0"
  by (simp add: line_start_def)

lemma line_start_nonneg: "0 \<le> line_start ls i"
  unfolding line_start_def by (induction ls arbitrary: i) (auto simp: take_Cons' sum_list_nonneg)

lemma describe_lines_found:
  assumes "i < length lines"
    and "count + line_start lines i \<le> start"
    and "start \<le> count + line_start lines i + int (length (lines ! i))"
  shows "describe_lines fn start end lineno count lines =
     Some (''from '' @ str_file_name fn @ '' line '' @ str_nat (lineno + i + 1) @ '':'' @ [newline]
           @ lines ! i @ [newline]
           @ replicate (nat (start - (count + line_start lines i))) CHR '' ''
           @ replicate (nat (min (count + line_start lines i + int (length (lines ! i)) - 1) end - start + 1)) CHR ''~'')"
  using assms
proof (induction lines arbitrary: i lineno count)
  case Nil
  then show ?case by simp
next
  case (Cons l ls)
  show ?case
  proof (cases i)
    case 0
    with Cons.prems show ?thesis by (simp add: line_start_0 Let_def)
  next
    case (Suc j)
    with Cons.prems have j: "j < length ls"
      and lo: "(count + int (length l) + 1) + line_start ls j \<le> start"
      and hi: "start \<le> (count + int (length l) + 1) + line_start ls j + int (length (ls ! j))"
      by (simp_all add: line_start_Cons)
    from lo line_start_nonneg[of ls j] have "\<not> start \<le> count + int (length l)" by linarith
    with Cons.IH[OF j lo hi, of "lineno + 1"] Suc show ?thesis
      by (simp add: Let_def line_start_Cons algebra_simps)
  qed
qed

text \<open>
  C8, as the code has it. For a location whose file exists and can be read and whose start
  offset lies in line \<open>i\<close> of the source (from the line's first character up to and
  including the position of its terminator), \<open>describe_location\<close> gives three lines:
  the header with the file name and the line number \<open>i + 1\<close>, the line, and an
  underline that begins at column \<open>start - line_start\<close> and has
  \<open>max(0, min(line_end - 1, end) - start + 1)\<close> characters \<open>~\<close>. The
  underline is empty where that number is not positive; the specification's
  \<open>max(1, ...)\<close> is not in the code.
\<close>

theorem describe_location_underline:
  assumes "file_exists fn" and "read_file fn = Some contents"
    and "i < length (splitlines contents)"
    and "line_start (splitlines contents) i \<le> start"
    and "start \<le> line_start (splitlines contents) i + int (length (splitlines contents ! i))"
  shows "describe_location file_exists read_file (Some (fn, start, end)) =
     Inr (Some (''from '' @ str_file_name fn @ '' line '' @ str_nat (i + 1) @ '':'' @ [newline]
           @ splitlines contents ! i @ [newline]
           @ replicate (nat (start - line_start (splitlines contents) i)) CHR '' ''
           @ replicate (nat (max 0 (min (line_start (splitlines contents) i
                 + int (length (splitlines contents ! i)) - 1) end - start + 1))) CHR ''~''))"
proof -
  have "nat (max 0 x) = nat x" for x :: int by simp
  with describe_lines_found[of i "splitlines contents" 0 start fn "end" 0] assms
  show ?thesis by (simp add: describe_location_def)
qed

text \<open>
  The one-character span at the first column of the single-line source \<open>S\<close>: the
  header for line 1, the line, and one \<open>~\<close> at column 0.
\<close>

theorem describe_location_underline_witness:
  "describe_location (\<lambda>f. True) (\<lambda>f. Some ''S\<newline>'') (Some (Some ''filename'', 0, 0))
     = Inr (Some ''from filename line 1:\<newline>S\<newline>~'')"
proof -
  have s: "splitlines ''S\<newline>'' = [''S'']" by code_simp
  have n: "str_nat (Suc 0) = ''1''" by code_simp
  from describe_location_underline[of "\<lambda>f. True" "Some ''filename''" "\<lambda>f. Some ''S\<newline>''" "''S\<newline>''" 0 0 0]
  show ?thesis by (simp add: s n line_start_def str_file_name_def newline_def)
qed

text \<open>
  C8 as stated fails at the span \<open>(2, 2)\<close> of the newline that ends the first line of
  \<open>ab\<close>, \<open>cd\<close>: the underline is two blanks and no \<open>~\<close>, where the claimed
  length is 1.
\<close>

theorem describe_location_underline_counterexample:
  "describe_location (\<lambda>f. True) (\<lambda>f. Some ''ab\<newline>cd\<newline>'') (Some (Some ''fn.v'', 2, 2))
     = Inr (Some ''from fn.v line 1:\<newline>ab\<newline>  '')
   \<and> describe_location (\<lambda>f. True) (\<lambda>f. Some ''ab\<newline>cd\<newline>'') (Some (Some ''fn.v'', 2, 2))
     \<noteq> Inr (Some (''from fn.v line 1:\<newline>ab\<newline>  ''
                    @ replicate (nat (claimed_underline_length 2 2 2)) CHR ''~''))"
  by code_simp

section \<open>Properties of macro expansion\<close>

lemma expand_loop_no_default:
  assumes "t \<in> set body" and "kind t = IDENTIFIER" and "val t \<in> set (args m)"
    and "length values \<le> index (args m) (val t)" and "defaults m (val t) = None"
  shows "expand_loop m values body acc = []"
  using assms(1)
proof (induction body arbitrary: acc)
  case Nil
  then show ?case by simp
next
  case (Cons a body)
  show ?case
  proof (cases "a = t")
    case True
    with assms show ?thesis by (simp add: Let_def)
  next
    case False
    with Cons.prems have "t \<in> set body" by simp
    from Cons.IH[OF this] show ?thesis
      by (simp add: Let_def split: option.splits)
  qed
qed

text \<open>
  C5. \<open>expand\<close> returns the empty token sequence whenever some body token names a
  declared parameter (an identifier token whose text is in \<open>args\<close>) whose position is
  not covered by the actuals and which has no declared default.
\<close>

theorem expand_without_default:
  assumes "t \<in> set (tokens m)" and "kind t = IDENTIFIER" and "val t \<in> set (args m)"
    and "length values \<le> index (args m) (val t)" and "defaults m (val t) = None"
  shows "expand m values = []"
  unfolding expand_def using assms by (rule expand_loop_no_default)

text \<open>
  The example of the specification: \<open>`define foo(arg1, arg2) arg1 arg2\<close> called as
  \<open>`foo(1)\<close> gives no tokens, for the macro and through \<open>preprocess\<close>.
\<close>

theorem expand_without_default_witness:
  "expand foo_no_default [[tk (OTHER ''INTEGER'') ''1'']] = []
   \<and> out (preprocess no_files define_two_args_src Map.empty [] []) = Some (Inr ([], []))"
proof -
  have "expand foo_no_default [[tk (OTHER ''INTEGER'') ''1'']] = []"
    by (rule expand_without_default[of "tk IDENTIFIER ''arg2''"])
      (simp_all add: foo_no_default_def Macro_def tk_def Token_def)
  moreover have "out (preprocess no_files define_two_args_src Map.empty [] []) = Some (Inr ([], []))"
    by code_simp
  ultimately show ?thesis by simp
qed

lemma expand_loop_no_parameters:
  "args m = [] \<Longrightarrow> expand_loop m values body acc = acc @ body"
  by (induction body arbitrary: acc) simp_all

text \<open>
  C6. For a macro with zero parameters \<open>expand_from_stream\<close> returns the body as it is
  and leaves the stream as it was, and \<open>expand\<close> returns the body whatever the
  actuals are.
\<close>

theorem zero_parameter_macro:
  assumes "args m = []"
  shows "expand_from_stream m stream = (tokens m, stream) \<and> expand m values = tokens m"
  using assms by (simp add: expand_from_stream_def num_args_def expand_def expand_loop_no_parameters)

theorem zero_parameter_macro_witness:
  "expand_from_stream foo_bar (TokenStream [tk LPAR ''('', tk IDENTIFIER ''x'', tk RPAR '')''])
     = ([tk IDENTIFIER ''bar'', tk WHITESPACE '' '', tk STRING ''abc''],
        TokenStream [tk LPAR ''('', tk IDENTIFIER ''x'', tk RPAR '')''])
   \<and> expand foo_bar [[tk IDENTIFIER ''x'']] = [tk IDENTIFIER ''bar'', tk WHITESPACE '' '', tk STRING ''abc'']"
proof -
  have a: "args foo_bar = []" and t: "tokens foo_bar = [tk IDENTIFIER ''bar'', tk WHITESPACE '' '', tk STRING ''abc'']"
    by (simp_all add: foo_bar_def Macro_def)
  from zero_parameter_macro[OF a, of "TokenStream [tk LPAR ''('', tk IDENTIFIER ''x'', tk RPAR '')'']"
      "[[tk IDENTIFIER ''x'']]"] t
  show ?thesis by simp
qed

lemma expand_loop_substitute:
  assumes "\<forall>t\<in>set body. names_parameter m t \<and> length values \<le> index (args m) (val t)
             \<longrightarrow> defaults m (val t) \<noteq> None"
  shows "expand_loop m values body acc = acc @ concat (map (substitute m values) body)"
  using assms
proof (induction body arbitrary: acc)
  case Nil
  then show ?case by simp
next
  case (Cons a body)
  then have ih: "\<And>acc. expand_loop m values body acc = acc @ concat (map (substitute m values) body)"
    by simp
  from Cons.prems
  have a: "names_parameter m a \<and> length values \<le> index (args m) (val a) \<longrightarrow> defaults m (val a) \<noteq> None"
    by simp
  show ?case
  proof (cases "names_parameter m a")
    case False
    then have "substitute m values a = [a]"
      and "expand_loop m values (a # body) acc = expand_loop m values body (acc @ [a])"
      by (auto simp: substitute_def names_parameter_def)
    then show ?thesis by (simp add: ih)
  next
    case np: True
    show ?thesis
    proof (cases "length values \<le> index (args m) (val a)")
      case True
      with a np obtain d where d: "defaults m (val a) = Some d" by auto
      with True np have "substitute m values a = d"
        and "expand_loop m values (a # body) acc = expand_loop m values body (acc @ d)"
        by (auto simp: substitute_def names_parameter_def Let_def)
      then show ?thesis by (simp add: ih)
    next
      case False
      with np have "substitute m values a = values ! index (args m) (val a)"
        and "expand_loop m values (a # body) acc
               = expand_loop m values body (acc @ values ! index (args m) (val a))"
        by (auto simp: substitute_def names_parameter_def Let_def)
      then show ?thesis by (simp add: ih)
    qed
  qed
qed

text \<open>
  C7, as the code has it. When every body token that names a parameter the actuals do not
  cover has a declared default, the expansion is the body with each token replaced by
  \<open>substitute\<close>: the default token sequence for such a parameter, the actual for a
  covered one, the token itself otherwise. (When some uncovered parameter named in the
  body has no default the expansion is empty, as C5 says, and no default is
  substituted.)
\<close>

theorem expand_substitutes_default:
  assumes "\<forall>t\<in>set (tokens m). names_parameter m t \<and> length values \<le> index (args m) (val t)
             \<longrightarrow> defaults m (val t) \<noteq> None"
  shows "expand m values = concat (map (substitute m values) (tokens m))"
  unfolding expand_def using expand_loop_substitute[OF assms, of "[]"] by simp

text \<open>
  The example of the specification: \<open>`define foo(arg1, arg2=default) arg1 arg2\<close> called
  as \<open>`foo(1)\<close> gives the tokens of \<open>1 default\<close>.
\<close>

theorem expand_substitutes_default_witness:
  "expand foo_default [[tk (OTHER ''INTEGER'') ''1'']]
     = [tk (OTHER ''INTEGER'') ''1'', tk WHITESPACE '' '', tk IDENTIFIER ''default'']
   \<and> out (preprocess no_files define_default_src Map.empty [] [])
     = Some (Inr ([tk (OTHER ''INTEGER'') ''1'', tk WHITESPACE '' '', tk IDENTIFIER ''default''], []))"
proof -
  have h: "\<forall>t\<in>set (tokens foo_default).
      names_parameter foo_default t \<and> length [[tk (OTHER ''INTEGER'') ''1'']] \<le> index (args foo_default) (val t)
        \<longrightarrow> defaults foo_default (val t) \<noteq> None"
    by (simp add: foo_default_def Macro_def tk_def Token_def names_parameter_def)
  have "concat (map (substitute foo_default [[tk (OTHER ''INTEGER'') ''1'']]) (tokens foo_default))
      = [tk (OTHER ''INTEGER'') ''1'', tk WHITESPACE '' '', tk IDENTIFIER ''default'']"
    by code_simp
  with expand_substitutes_default[OF h]
  have "expand foo_default [[tk (OTHER ''INTEGER'') ''1'']]
     = [tk (OTHER ''INTEGER'') ''1'', tk WHITESPACE '' '', tk IDENTIFIER ''default'']" by simp
  moreover have "out (preprocess no_files define_default_src Map.empty [] [])
     = Some (Inr ([tk (OTHER ''INTEGER'') ''1'', tk WHITESPACE '' '', tk IDENTIFIER ''default''], []))"
    by code_simp
  ultimately show ?thesis by simp
qed

text \<open>
  C7 as stated fails for \<open>`define foo(a, b=d, c) b c\<close> called with one actual: the
  trailing parameter \<open>b\<close> is omitted and has the default \<open>d\<close>, and the expansion
  is empty because \<open>c\<close> has none.
\<close>

theorem expand_substitutes_default_counterexample:
  "defaults abc_macro ''b'' = Some [tk IDENTIFIER ''d'']
   \<and> length [[tk IDENTIFIER ''x'']] \<le> index (args abc_macro) ''b''
   \<and> tk IDENTIFIER ''b'' \<in> set (tokens abc_macro)
   \<and> expand abc_macro [[tk IDENTIFIER ''x'']] = []"
  by code_simp

section \<open>Properties of the preprocessor\<close>

text \<open>
  Whenever the macro name is followed by a token that is neither whitespace, newline nor
  an opening parenthesis, \<open>define\<close> raises.
\<close>

lemma define_macro_raises:
  assumes "pop (skip_while [WHITESPACE] stream) = (Some name_token, s1)"
    and "kind name_token = IDENTIFIER"
    and "pop s1 = (Some token, s2)"
    and "kind token \<noteq> WHITESPACE" and "kind token \<noteq> NEWLINE" and "kind token \<noteq> LPAR"
  shows "define_macro E define_token stream = Inl UnboundLocalError"
  using assms by (simp add: define_macro_def define_body_def Let_def)

text \<open>
  C9. A malformed define should never raise. The code raises for \<open>`define foo"abc"\<close>:
  the token after the macro name is neither whitespace, newline nor an opening
  parenthesis, no branch assigns \<open>args\<close> and \<open>defaults\<close>, and building the macro
  reads them.
\<close>

theorem define_unbound_args:
  "map_sum id (\<lambda>(m, s). (map_option name m, s))
     (define_macro no_files (tk PREPROCESSOR ''define'')
        \<lparr>stream_tokens = define_string_src, stream_idx = 1\<rparr>)
     = Inl UnboundLocalError
   \<and> out (preprocess no_files define_string_src Map.empty [] []) = Some (Inl UnboundLocalError)"
  by code_simp

text \<open>
  C2, as the code has it. When the loop of \<open>preprocess\<close> pops a directive token whose
  text is not \<open>define\<close>, not \<open>include\<close> and not a key of the definitions table,
  it emits nothing for it: the run goes on behind the token with the same output,
  definitions and included-files log.
\<close>

theorem preprocess_drops_unknown_directive:
  assumes "pop stream = (Some token, s1)" and "kind token = PREPROCESSOR"
    and "val token \<noteq> ''define''" and "val token \<noteq> ''include''" and "defs (val token) = None"
  shows "preprocess_loop E include_paths stream defs included_files result
     = preprocess_loop E include_paths s1 defs included_files result"
  using assms by (subst preprocess_loop.simps) simp

theorem preprocess_drops_unknown_directive_witness:
  "out (preprocess no_files [tk PREPROCESSOR ''timescale'', tk IDENTIFIER ''x''] Map.empty [] [])
     = Some (Inr ([tk IDENTIFIER ''x''], []))"
proof -
  let ?toks = "[tk PREPROCESSOR ''timescale'', tk IDENTIFIER ''x'']"
  have p: "pop (TokenStream ?toks) = (Some (tk PREPROCESSOR ''timescale''), \<lparr>stream_tokens = ?toks, stream_idx = 1\<rparr>)"
    by (simp add: pop_def eof_def TokenStream_def)
  have r: "out (preprocess_loop no_files [] \<lparr>stream_tokens = ?toks, stream_idx = 1\<rparr> Map.empty [] [])
      = Some (Inr ([tk IDENTIFIER ''x''], []))"
    by code_simp
  from preprocess_drops_unknown_directive[OF p, of Map.empty no_files "[]" "[]" "[]"] r
  show ?thesis by (simp add: preprocess_def tk_def Token_def)
qed

text \<open>
  C2 as stated fails for the single token \<open>`timescale\<close>: the output is empty, the
  token is not passed through.
\<close>

theorem preprocess_unknown_directive_counterexample:
  "out (preprocess no_files [tk PREPROCESSOR ''timescale''] Map.empty [] []) = Some (Inr ([], []))
   \<and> out (preprocess no_files [tk PREPROCESSOR ''timescale''] Map.empty [] [])
      \<noteq> Some (Inr ([tk PREPROCESSOR ''timescale''], []))"
  by code_simp

subsection \<open>Includes\<close>





subsection \<open>The stream only moves forward\<close>

lemma advances_refl: "advances s s"
  by (simp add: advances_def)

lemma advances_trans: "advances s s' \<Longrightarrow> advances s' s'' \<Longrightarrow> advances s s''"
  by (auto simp: advances_def)

lemma pop_advances: "advances s (snd (pop s))"
  by (simp add: pop_def advances_def)


lemma pop_None: "pop s = (None, s') \<Longrightarrow> s' = s"
  by (auto simp: pop_def split: if_splits)

lemma skip_while_advances: "advances s (skip_while kinds s)"
proof (induction kinds s rule: skip_while.induct)
  case (1 kinds s)
  show ?case
  proof (cases "eof s \<or> kind (stream_tokens s ! stream_idx s) \<notin> set kinds")
    case True
    then show ?thesis by (auto simp: skip_while.simps[of kinds s] advances_refl)
  next
    case False
    with "1.IH" have "advances (s\<lparr>stream_idx := stream_idx s + 1\<rparr>)
        (skip_while kinds (s\<lparr>stream_idx := stream_idx s + 1\<rparr>))" by simp
    with False show ?thesis
      by (auto simp: skip_while.simps[of kinds s] advances_def)
  qed
qed


lemma pop_fst_advances: "pop s = (x, s') \<Longrightarrow> advances s s'"
  using pop_advances[of s] by simp

lemma parse_actuals_loop_advances:
  "advances stream (snd (parse_actuals_loop token value values stream))"
proof (induction token "value" "values" stream rule: parse_actuals_loop.induct)
  case (1 token v vs stream)
  show ?case
  proof (cases "kind token = RPAR")
    case True
    then show ?thesis by (simp add: parse_actuals_loop.simps[of token v vs stream] advances_refl)
  next
    case False
    obtain x s' where p: "pop stream = (x, s')" by (cases "pop stream")
    show ?thesis
    proof (cases x)
      case None
      with False p show ?thesis
        by (simp add: parse_actuals_loop.simps[of token v vs stream] pop_fst_advances)
    next
      case (Some t)
      from p have a: "advances stream s'" by (rule pop_fst_advances)
      show ?thesis
      proof (cases "kind token = COMMA")
        case True
        from "1.IH"(1)[OF False p[symmetric] Some True] a
        have "advances stream (snd (parse_actuals_loop t [] (vs @ [v]) s'))"
          by (auto intro: advances_trans)
        with False p Some True show ?thesis
          by (simp add: parse_actuals_loop.simps[of token v vs stream])
      next
        case nc: False
        from "1.IH"(2)[OF False p[symmetric] Some nc] a
        have "advances stream (snd (parse_actuals_loop t (v @ [token]) vs s'))"
          by (auto intro: advances_trans)
        with False p Some nc show ?thesis
          by (simp add: parse_actuals_loop.simps[of token v vs stream])
      qed
    qed
  qed
qed

lemma parse_macro_actuals_advances: "advances stream (snd (parse_macro_actuals stream))"
proof -
  obtain x s1 where p1: "pop stream = (x, s1)" by (cases "pop stream")
  then have a1: "advances stream s1" by (rule pop_fst_advances)
  obtain y s2 where p2: "pop s1 = (y, s2)" by (cases "pop s1")
  then have a2: "advances stream s2" using a1 by (auto dest: pop_fst_advances intro: advances_trans)
  have a3: "advances stream (snd (parse_actuals_loop t [] [] s2))" for t
    using a2 parse_actuals_loop_advances[of s2 t "[]" "[]"] by (rule advances_trans)
  from p1 p2 a1 a2 a3 show ?thesis
    by (auto simp: parse_macro_actuals_def split: option.splits)
qed

lemma expand_from_stream_advances: "advances stream (snd (expand_from_stream m stream))"
  using parse_macro_actuals_advances[of stream]
  by (auto simp: expand_from_stream_def advances_refl split: prod.splits option.splits)





lemma include_file_name_advances: "advances stream (snd (include_file_name defs stream))"
proof -
  let ?s0 = "skip_while [WHITESPACE] stream"
  have a0: "advances stream ?s0" by (rule skip_while_advances)
  obtain x1 s1 where p1: "pop ?s0 = (x1, s1)" by (cases "pop ?s0")
  then have a1: "advances stream s1"
    using a0 by (auto dest: pop_fst_advances intro: advances_trans)
  have a2: "expand_from_stream m s1 = (toks, s2) \<Longrightarrow> advances stream s2" for m toks s2
    using a1 expand_from_stream_advances[of s1 m] by (auto intro: advances_trans)
  from p1 a1 show ?thesis
    using a2
    by (auto simp: include_file_name_def split: option.splits prod.splits list.splits)
qed


subsection \<open>The include directive\<close>











end
